theory Spec2Isabelle
  imports Main
begin

section \<open>Sockets and messages\<close>

text \<open>
  Modelled from the spec: the classes \<open>socket\<close> and \<open>message\<close> (zmq/socket.hpp and
  zmq/message.hpp) are used by \<open>worker::forward\<close> but declared outside worker.cpp. The
  spec gives the endpoint as \<open>receive() \<rightarrow> (message, error)\<close> and
  \<open>send(message) \<rightarrow> error\<close>. An error is a \<open>code\<close> (an error code whose conversion to
  bool is true exactly for a failure, so that \<open>!code\<close> reads "succeeded"); a message is
  a queue of byte strings, empty when default constructed.

  A socket is passed by reference, and both arguments of \<open>forward\<close> may name the same
  socket, so sockets live in a store \<open>'w\<close> and are addressed by an identifier. What the
  transport does on a receive and on a send is left open: the two operations are
  parameters \<open>rcv\<close> and \<open>sen\<close> on the store. Every invocation is recorded in \<open>calls\<close>.
\<close>

type_synonym code = int

definition is_error :: "code \<Rightarrow> bool" where
  "is_error ec = (ec \<noteq> 0)"

type_synonym message = "string list"

type_synonym socket_id = nat

datatype socket_call = Receive socket_id | Send socket_id message

record 'w transport =
  world :: 'w
  calls :: "socket_call list"

type_synonym 'w receiver = "socket_id \<Rightarrow> message \<Rightarrow> 'w \<Rightarrow> code \<times> message \<times> 'w"
type_synonym 'w sender = "socket_id \<Rightarrow> message \<Rightarrow> 'w \<Rightarrow> code \<times> 'w"

definition socket_receive ::
  "'w receiver \<Rightarrow> socket_id \<Rightarrow> message \<Rightarrow> 'w transport \<Rightarrow> code \<times> message \<times> 'w transport" where
  "socket_receive rcv s packet tr =
     (case rcv s packet (world tr) of
        (ec, packet', w') \<Rightarrow>
          (ec, packet', tr\<lparr>world := w', calls := calls tr @ [Receive s]\<rparr>))"

definition socket_send ::
  "'w sender \<Rightarrow> socket_id \<Rightarrow> message \<Rightarrow> 'w transport \<Rightarrow> code \<times> 'w transport" where
  "socket_send sen s packet tr =
     (case sen s packet (world tr) of
        (ec, w') \<Rightarrow> (ec, tr\<lparr>world := w', calls := calls tr @ [Send s packet]\<rparr>))"

section \<open>worker::forward\<close>

text \<open>
  \<^verbatim>\<open>
  bool worker::forward(socket& from, socket& to)
  {
      message packet;
      return !from.receive(packet) && !to.send(packet);
  }
  \<close>
  The right operand of \<open>&&\<close> is evaluated only when the left one is true.
\<close>

definition forward ::
  "'w receiver \<Rightarrow> 'w sender \<Rightarrow> socket_id \<Rightarrow> socket_id \<Rightarrow> 'w transport \<Rightarrow> bool \<times> 'w transport" where
  "forward rcv sen from_s to_s tr =
     (let packet = [] in
      case socket_receive rcv from_s packet tr of
        (rc, packet, tr1) \<Rightarrow>
          if \<not> is_error rc
          then (case socket_send sen to_s packet tr1 of (sc, tr2) \<Rightarrow> (\<not> is_error sc, tr2))
          else (False, tr1))"

section \<open>The worker and its environment\<close>

text \<open>
  Modelled from the spec: \<open>thread_priority\<close> and \<open>set_priority\<close> come from the
  libbitcoin base library ("accepts an enum-like priority hint"). The hint is an
  enumeration and applying it is an observable call, recorded in the trace.
\<close>

datatype thread_priority = high | normal | low | lowest

text \<open>
  Threads. \<open>Caller c\<close> is a thread that calls \<open>start()\<close> and \<open>stop()\<close>; \<open>Work n\<close> is
  the \<open>n\<close>-th thread created by \<open>start()\<close>, running the work loop.
\<close>

datatype thread_id = Caller nat | Work nat

text \<open>
  \<open>std::promise<bool>\<close> with its future: the value once set, and whether the future
  has been retrieved. Setting a value twice and retrieving the future twice throw
  \<open>std::future_error\<close>; \<open>get()\<close> on the future blocks until the value is set.
\<close>

record promise =
  pvalue :: "bool option"
  retrieved :: bool

datatype error = promise_already_satisfied | future_already_retrieved

definition new_promise :: promise where
  "new_promise = \<lparr>pvalue = None, retrieved = False\<rparr>"

datatype signal = Start_signal | Finish_signal

text \<open>
  The data members of \<open>worker\<close>: the member \<^verbatim>\<open>stopped_\<close> of the source is the field
  \<open>stopped_m\<close>, and so on for the others. \<open>thread_m\<close> is the shared pointer to the
  thread object, \<open>None\<close> for the null pointer; \<open>mutex_m\<close> holds its owner.
\<close>

record worker =
  priority_m :: thread_priority
  stopped_m :: bool
  started_m :: promise
  finished_m :: promise
  thread_m :: "nat option"
  mutex_m :: "thread_id option"

text \<open>
  What a thread of the work loop is doing: it has not yet called \<open>started\<close>; it is
  inside \<open>started(r)\<close>, past the \<open>set_value\<close>; it is in its loop; it has published
  the finish signal but its function has not returned yet; its function has returned; or
  an exception has left it.
\<close>

datatype phase = Binding | Published bool | Polling | Finished | Exited | Crashed error

text \<open>
  Every primitive operation on the shared state is written to the trace. An access to
  \<open>stopped_m\<close> records the owner of the mutex at that moment.
\<close>

datatype event =
    Lock thread_id
  | Unlock thread_id
  | Load_stopped thread_id "thread_id option"
  | Store_stopped thread_id bool "thread_id option"
  | Spawn thread_id nat
  | Get_future thread_id signal
  | Get thread_id signal bool
  | Reset thread_id signal
  | Set_value thread_id signal bool
  | Set_priority thread_id thread_priority

record process =
  self :: worker
  threads :: "phase list"
  trace :: "event list"

definition emit :: "event \<Rightarrow> process \<Rightarrow> process" where
  "emit e p = p\<lparr>trace := trace p @ [e]\<rparr>"

subsection \<open>Mutex, flag, thread and promise primitives\<close>

definition lock :: "thread_id \<Rightarrow> process \<Rightarrow> process option" where
  "lock t p =
     (if mutex_m (self p) = None
      then Some (emit (Lock t) (p\<lparr>self := (self p)\<lparr>mutex_m := Some t\<rparr>\<rparr>))
      else None)"

definition unlock :: "thread_id \<Rightarrow> process \<Rightarrow> process" where
  "unlock t p = emit (Unlock t) (p\<lparr>self := (self p)\<lparr>mutex_m := None\<rparr>\<rparr>)"

definition load_stopped :: "thread_id \<Rightarrow> process \<Rightarrow> bool \<times> process" where
  "load_stopped t p = (stopped_m (self p), emit (Load_stopped t (mutex_m (self p))) p)"

definition store_stopped :: "thread_id \<Rightarrow> bool \<Rightarrow> process \<Rightarrow> process" where
  "store_stopped t b p =
     emit (Store_stopped t b (mutex_m (self p))) (p\<lparr>self := (self p)\<lparr>stopped_m := b\<rparr>\<rparr>)"

definition make_thread :: "thread_id \<Rightarrow> process \<Rightarrow> process" where
  "make_thread t p =
     emit (Spawn t (length (threads p)))
       (p\<lparr>self := (self p)\<lparr>thread_m := Some (length (threads p))\<rparr>,
          threads := threads p @ [Binding]\<rparr>)"

definition set_priority :: "thread_id \<Rightarrow> thread_priority \<Rightarrow> process \<Rightarrow> process" where
  "set_priority t priority p = emit (Set_priority t priority) p"

definition promise_of :: "signal \<Rightarrow> worker \<Rightarrow> promise" where
  "promise_of s w = (case s of Start_signal \<Rightarrow> started_m w | Finish_signal \<Rightarrow> finished_m w)"

definition promise_update :: "signal \<Rightarrow> promise \<Rightarrow> worker \<Rightarrow> worker" where
  "promise_update s pr w =
     (case s of Start_signal \<Rightarrow> w\<lparr>started_m := pr\<rparr> | Finish_signal \<Rightarrow> w\<lparr>finished_m := pr\<rparr>)"

definition set_value :: "thread_id \<Rightarrow> signal \<Rightarrow> bool \<Rightarrow> process \<Rightarrow> error + process" where
  "set_value t s v p =
     (if pvalue (promise_of s (self p)) \<noteq> None then Inl promise_already_satisfied
      else Inr (emit (Set_value t s v)
                 (p\<lparr>self := promise_update s ((promise_of s (self p))\<lparr>pvalue := Some v\<rparr>) (self p)\<rparr>)))"

definition get_future :: "thread_id \<Rightarrow> signal \<Rightarrow> process \<Rightarrow> error + process" where
  "get_future t s p =
     (if retrieved (promise_of s (self p)) then Inl future_already_retrieved
      else Inr (emit (Get_future t s)
                 (p\<lparr>self := promise_update s ((promise_of s (self p))\<lparr>retrieved := True\<rparr>) (self p)\<rparr>)))"

text \<open>\<open>get\<close> is \<open>None\<close> while the value is not there: the calling thread stays blocked.\<close>

definition get :: "thread_id \<Rightarrow> signal \<Rightarrow> process \<Rightarrow> (bool \<times> process) option" where
  "get t s p =
     (case pvalue (promise_of s (self p)) of
        None \<Rightarrow> None
      | Some v \<Rightarrow> Some (v, emit (Get t s v) p))"

definition reset :: "thread_id \<Rightarrow> signal \<Rightarrow> process \<Rightarrow> process" where
  "reset t s p = emit (Reset t s) (p\<lparr>self := promise_update s new_promise (self p)\<rparr>)"

subsection \<open>Construction\<close>

text \<open>
  \<^verbatim>\<open>
  worker::worker(thread_priority priority)
    : priority_(priority),
      stopped_(true)
  \<close>
  The promises, the thread pointer and the mutex are default constructed.
\<close>

definition construct :: "thread_priority \<Rightarrow> worker" where
  "construct priority =
     \<lparr>priority_m = priority, stopped_m = True, started_m = new_promise,
      finished_m = new_promise, thread_m = None, mutex_m = None\<rparr>"

definition boot :: "thread_priority \<Rightarrow> process" where
  "boot priority = \<lparr>self = construct priority, threads = [], trace = []\<rparr>"

subsection \<open>start and stop\<close>

text \<open>
  A call of \<open>start()\<close> or \<open>stop()\<close> by thread \<open>t\<close> has one of four outcomes: it returns
  a value; it is suspended in \<open>get()\<close> on a future, inside the critical section
  (\<open>Waiting\<close>); it cannot take the mutex and has done nothing (\<open>Blocked\<close>); or an
  exception leaves it, which releases the \<open>unique_lock\<close>.

  \<open>start\<close> is the code of \<open>worker::start\<close> up to \<^verbatim>\<open>started_.get_future()\<close>, and
  \<open>start_resume\<close> the rest, from \<open>.get()\<close> on: it is \<open>Blocked\<close> until the value is
  there. \<open>stop\<close> and \<open>stop_resume\<close> divide \<open>worker::stop\<close> in the same way.
  \<^verbatim>\<open>
  bool worker::start()
  {
      unique_lock lock(mutex_);

      if (stopped_)
      {
          stopped_ = false;
          thread_ = std::make_shared<asio::thread>(&worker::work, this);
          const auto result = started_.get_future().get();
          started_ = std::promise<bool>();
          return result;
      }

      return false;
  }

  bool worker::stop()
  {
      unique_lock lock(mutex_);

      if (!stopped_)
      {
          stopped_ = true;
          const auto result = finished_.get_future().get();
          finished_ = std::promise<bool>();
          return result;
      }

      return true;
  }
  \<close>
\<close>

datatype 'a outcome = Returned 'a process | Waiting process | Blocked | Threw error process

definition start :: "thread_id \<Rightarrow> process \<Rightarrow> bool outcome" where
  "start t p =
     (case lock t p of
        None \<Rightarrow> Blocked
      | Some p1 \<Rightarrow>
          (case load_stopped t p1 of
             (flag, p2) \<Rightarrow>
               if flag then
                 (let p3 = store_stopped t False p2;
                      p4 = make_thread t p3
                  in case get_future t Start_signal p4 of
                       Inl e \<Rightarrow> Threw e (unlock t p4)
                     | Inr p5 \<Rightarrow> Waiting p5)
               else Returned False (unlock t p2)))"

definition start_resume :: "thread_id \<Rightarrow> process \<Rightarrow> bool outcome" where
  "start_resume t p =
     (case get t Start_signal p of
        None \<Rightarrow> Blocked
      | Some (result, p1) \<Rightarrow> Returned result (unlock t (reset t Start_signal p1)))"

definition stop :: "thread_id \<Rightarrow> process \<Rightarrow> bool outcome" where
  "stop t p =
     (case lock t p of
        None \<Rightarrow> Blocked
      | Some p1 \<Rightarrow>
          (case load_stopped t p1 of
             (flag, p2) \<Rightarrow>
               if \<not> flag then
                 (let p3 = store_stopped t True p2
                  in case get_future t Finish_signal p3 of
                       Inl e \<Rightarrow> Threw e (unlock t p3)
                     | Inr p4 \<Rightarrow> Waiting p4)
               else Returned True (unlock t p2)))"

definition stop_resume :: "thread_id \<Rightarrow> process \<Rightarrow> bool outcome" where
  "stop_resume t p =
     (case get t Finish_signal p of
        None \<Rightarrow> Blocked
      | Some (result, p1) \<Rightarrow> Returned result (unlock t (reset t Finish_signal p1)))"

subsection \<open>The utilities called from the work loop\<close>

text \<open>
  \<^verbatim>\<open>
  bool worker::stopped()
  {
      return stopped_;
  }
  \<close>
  The flag is read as it is; the function takes no lock.
\<close>

definition stopped :: "thread_id \<Rightarrow> process \<Rightarrow> bool \<times> process" where
  "stopped t p = load_stopped t p"

text \<open>
  \<^verbatim>\<open>
  bool worker::finished(bool result)
  {
      finished_.set_value(result);
      return result;
  }
  \<close>
\<close>

definition finished :: "thread_id \<Rightarrow> bool \<Rightarrow> process \<Rightarrow> error + bool \<times> process" where
  "finished t result p =
     (case set_value t Finish_signal result p of
        Inl e \<Rightarrow> Inl e
      | Inr p1 \<Rightarrow> Inr (result, p1))"

text \<open>
  \<^verbatim>\<open>
  bool worker::started(bool result)
  {
      started_.set_value(result);

      if (result)
          set_priority(priority_);
      else
          finished(true);

      return result;
  }
  \<close>
  \<open>started_tail\<close> is the body after the first statement: once the value is set, the
  thread suspended in \<open>start()\<close> may run before the rest of \<open>started\<close> does.
\<close>

definition started_tail :: "thread_id \<Rightarrow> bool \<Rightarrow> process \<Rightarrow> error + bool \<times> process" where
  "started_tail t result p =
     (if result then Inr (result, set_priority t (priority_m (self p)) p)
      else (case finished t True p of
              Inl e \<Rightarrow> Inl e
            | Inr (_, p1) \<Rightarrow> Inr (result, p1)))"

definition started :: "thread_id \<Rightarrow> bool \<Rightarrow> process \<Rightarrow> error + bool \<times> process" where
  "started t result p =
     (case set_value t Start_signal result p of
        Inl e \<Rightarrow> Inl e
      | Inr p1 \<Rightarrow> started_tail t result p1)"

section \<open>The work loop and the threads together\<close>

text \<open>
  Modelled from the spec: the work loop is the pure virtual \<open>worker::work\<close>, supplied by
  a derived class outside this repository. The spec gives its protocol: "the work loop
  calls \<open>started(result)\<close> exactly once to unblock the caller; if successful, the work
  loop runs until it observes \<open>stopped()\<close> returning true, then calls
  \<open>finished(result)\<close>".

  \<open>work n b\<close> is the next step of thread \<open>Work n\<close>; \<open>b\<close> is the result the loop
  reports in that step (whether it could bind, whether it could unbind), which is up to
  the environment. An exception that leaves the thread's function ends the program, so
  nothing of the step is kept but the fact.

  A loop may also end on its own account, without a stop request: by the spec \<open>relay\<close>
  "returns when the enclosing context is torn down", and \<open>stop()\<close> relies on the loop
  observing \<open>stopped()\<close> "or on the relay's external termination mechanism". \<open>leave n b\<close>
  is that step of a loop that is running: it calls \<open>finished(b)\<close> and is done.

  After the finish signal is published the thread still has to return from \<open>finished\<close>
  and from its function: \<open>exit_work n\<close> is that last step. Nothing in worker.cpp waits
  for it; \<open>stop()\<close> waits on the finish promise, which "is used instead of thread join
  in order to capture result".
\<close>

definition enter :: "nat \<Rightarrow> phase \<Rightarrow> process \<Rightarrow> process" where
  "enter n ph p = p\<lparr>threads := (threads p)[n := ph]\<rparr>"

definition work :: "nat \<Rightarrow> bool \<Rightarrow> process \<Rightarrow> process" where
  "work n b p =
     (if n < length (threads p) then
        (case threads p ! n of
           Binding \<Rightarrow>
             (case set_value (Work n) Start_signal b p of
                Inl e \<Rightarrow> enter n (Crashed e) p
              | Inr p1 \<Rightarrow> enter n (Published b) p1)
         | Published r \<Rightarrow>
             (case started_tail (Work n) r p of
                Inl e \<Rightarrow> enter n (Crashed e) p
              | Inr (ok, p1) \<Rightarrow> enter n (if ok then Polling else Finished) p1)
         | Polling \<Rightarrow>
             (case stopped (Work n) p of
                (flag, p1) \<Rightarrow>
                  if flag then
                    (case finished (Work n) b p1 of
                       Inl e \<Rightarrow> enter n (Crashed e) p1
                     | Inr (_, p2) \<Rightarrow> enter n Finished p2)
                  else p1)
         | Finished \<Rightarrow> p
         | Exited \<Rightarrow> p
         | Crashed e \<Rightarrow> p)
      else p)"

definition leave :: "nat \<Rightarrow> bool \<Rightarrow> process \<Rightarrow> process" where
  "leave n b p =
     (if n < length (threads p) \<and> threads p ! n = Polling then
        (case finished (Work n) b p of
           Inl e \<Rightarrow> enter n (Crashed e) p
         | Inr (_, p1) \<Rightarrow> enter n Finished p1)
      else p)"

definition exit_work :: "nat \<Rightarrow> process \<Rightarrow> process" where
  "exit_work n p =
     (if n < length (threads p) \<and> threads p ! n = Finished then enter n Exited p else p)"

text \<open>
  The whole system: the process, what each calling thread is in the middle of, and what
  the calls have returned (or thrown) so far. A move is one attempt of one thread to go
  on; a thread that cannot go on leaves the system as it is. A schedule is a list of
  moves, so a statement about \<open>run ms\<close> for every \<open>ms\<close> is a statement about every
  interleaving and every moment of it.
\<close>

datatype frame = Idle | In_start | In_stop

record system =
  proc :: process
  frames :: "nat \<Rightarrow> frame"
  returns :: "(nat \<times> frame \<times> (error + bool)) list"

datatype move =
  Call_start nat | Call_stop nat | Resume nat | Run nat bool | Leave nat bool | Return nat

definition init :: "thread_priority \<Rightarrow> system" where
  "init priority = \<lparr>proc = boot priority, frames = (\<lambda>c. Idle), returns = []\<rparr>"

definition settle :: "nat \<Rightarrow> frame \<Rightarrow> bool outcome \<Rightarrow> system \<Rightarrow> system" where
  "settle c f out s =
     (case out of
        Blocked \<Rightarrow> s
      | Waiting p \<Rightarrow> s\<lparr>proc := p, frames := (frames s)(c := f)\<rparr>
      | Returned r p \<Rightarrow>
          s\<lparr>proc := p, frames := (frames s)(c := Idle), returns := returns s @ [(c, f, Inr r)]\<rparr>
      | Threw e p \<Rightarrow>
          s\<lparr>proc := p, frames := (frames s)(c := Idle), returns := returns s @ [(c, f, Inl e)]\<rparr>)"

fun step :: "move \<Rightarrow> system \<Rightarrow> system" where
  "step (Call_start c) s =
     (if frames s c = Idle then settle c In_start (start (Caller c) (proc s)) s else s)"
| "step (Call_stop c) s =
     (if frames s c = Idle then settle c In_stop (stop (Caller c) (proc s)) s else s)"
| "step (Resume c) s =
     (case frames s c of
        Idle \<Rightarrow> s
      | In_start \<Rightarrow> settle c In_start (start_resume (Caller c) (proc s)) s
      | In_stop \<Rightarrow> settle c In_stop (stop_resume (Caller c) (proc s)) s)"
| "step (Run n b) s = s\<lparr>proc := work n b (proc s)\<rparr>"
| "step (Leave n b) s = s\<lparr>proc := leave n b (proc s)\<rparr>"
| "step (Return n) s = s\<lparr>proc := exit_work n (proc s)\<rparr>"

definition run :: "move list \<Rightarrow> system \<Rightarrow> system" where
  "run ms s = fold step ms s"

section \<open>Notions used to state the properties\<close>

text \<open>
  A process is quiescent when no call is in its critical section, the worker is stopped
  and both promises are fresh: the state of a constructed worker, and the state between
  two cycles.
\<close>

definition quiescent :: "process \<Rightarrow> bool" where
  "quiescent p =
     (mutex_m (self p) = None \<and> stopped_m (self p) \<and>
      started_m (self p) = new_promise \<and> finished_m (self p) = new_promise)"

text \<open>
  A thread has published once it has set the finish signal. The live threads are those
  whose function is still running; the unpublished ones those that have not yet set the
  finish signal.
\<close>

definition published :: "phase \<Rightarrow> bool" where
  "published ph = (ph = Finished \<or> ph = Exited)"

definition running :: "phase \<Rightarrow> bool" where
  "running ph = (case ph of Exited \<Rightarrow> False | Crashed e \<Rightarrow> False | _ \<Rightarrow> True)"

definition live :: "process \<Rightarrow> nat" where
  "live p = length (filter running (threads p))"

definition unpublished :: "process \<Rightarrow> nat" where
  "unpublished p = length (filter (\<lambda>ph. \<not> published ph) (threads p))"

text \<open>
  An access to \<open>stopped_m\<close> is guarded when the accessing thread owns the mutex. It is
  disciplined when it is a guarded store, a guarded load by a calling thread, or a load
  by a work thread that does not own the mutex.
\<close>

definition guarded :: "event \<Rightarrow> bool" where
  "guarded e =
     (case e of
        Load_stopped t owner \<Rightarrow> owner = Some t
      | Store_stopped t b owner \<Rightarrow> owner = Some t
      | _ \<Rightarrow> True)"

definition disciplined :: "event \<Rightarrow> bool" where
  "disciplined e =
     (case e of
        Store_stopped t b owner \<Rightarrow> owner = Some t
      | Load_stopped (Caller c) owner \<Rightarrow> owner = Some (Caller c)
      | Load_stopped (Work n) owner \<Rightarrow> owner \<noteq> Some (Work n)
      | _ \<Rightarrow> True)"

text \<open>
  One lifecycle cycle of caller \<open>c\<close> with work thread \<open>n\<close>: \<open>start()\<close>, the loop
  reports \<open>r\<close> through \<open>started\<close>, \<open>start()\<close> returns, \<open>started\<close> completes,
  \<open>stop()\<close>, the loop sees the stop and reports \<open>b\<close> through \<open>finished\<close> (if it was
  started at all), \<open>stop()\<close> returns. \<open>reports\<close> is what the calls of such cycles
  are expected to return.
\<close>

definition cycle :: "nat \<Rightarrow> nat \<Rightarrow> bool \<Rightarrow> bool \<Rightarrow> move list" where
  "cycle c n r b = [Call_start c, Run n r, Resume c, Run n b, Call_stop c, Run n b, Resume c]"

fun cycles :: "nat \<Rightarrow> nat \<Rightarrow> (bool \<times> bool) list \<Rightarrow> move list" where
  "cycles c n [] = []"
| "cycles c n ((r, b) # rbs) = cycle c n r b @ cycles c (Suc n) rbs"

fun reports :: "nat \<Rightarrow> (bool \<times> bool) list \<Rightarrow> (nat \<times> frame \<times> (error + bool)) list" where
  "reports c [] = []"
| "reports c ((r, b) # rbs) =
     [(c, In_start, Inr r), (c, In_stop, Inr (if r then b else True))] @ reports c rbs"

text \<open>How often a signal was consumed, how often it was reset, how often the priority was set.\<close>

definition consumed :: "signal \<Rightarrow> event list \<Rightarrow> nat" where
  "consumed sig es = length (filter (\<lambda>e. case e of Get t s v \<Rightarrow> s = sig | _ \<Rightarrow> False) es)"

definition renewed :: "signal \<Rightarrow> event list \<Rightarrow> nat" where
  "renewed sig es = length (filter (\<lambda>e. case e of Reset t s \<Rightarrow> s = sig | _ \<Rightarrow> False) es)"

definition applied :: "event list \<Rightarrow> nat" where
  "applied es = length (filter (\<lambda>e. case e of Set_priority t pr \<Rightarrow> True | _ \<Rightarrow> False) es)"

text \<open>
  The invariant of the system. \<open>last_phase\<close> is the phase of the thread created last;
  \<open>signals_fit\<close> relates the flag and the two promises to that phase, for a system with
  no call in progress (\<open>Idle\<close>) and for one whose mutex owner is suspended in \<open>start()\<close>
  or \<open>stop()\<close>.
\<close>

definition last_phase :: "process \<Rightarrow> phase" where
  "last_phase p = (if threads p = [] then Finished else last (threads p))"

definition signals_fit :: "frame \<Rightarrow> process \<Rightarrow> bool" where
  "signals_fit f p =
     (case f of
        Idle \<Rightarrow>
          started_m (self p) = new_promise \<and> \<not> retrieved (finished_m (self p)) \<and>
          (if stopped_m (self p)
           then pvalue (finished_m (self p)) = None \<and> published (last_phase p)
           else threads p \<noteq> [] \<and>
             (case last_phase p of
                Published r \<Rightarrow> pvalue (finished_m (self p)) = None
              | Polling \<Rightarrow> pvalue (finished_m (self p)) = None
              | Finished \<Rightarrow> pvalue (finished_m (self p)) \<noteq> None
              | Exited \<Rightarrow> pvalue (finished_m (self p)) \<noteq> None
              | _ \<Rightarrow> False))
      | In_start \<Rightarrow>
          \<not> stopped_m (self p) \<and> retrieved (started_m (self p)) \<and>
          \<not> retrieved (finished_m (self p)) \<and> threads p \<noteq> [] \<and>
          (case last_phase p of
             Binding \<Rightarrow> pvalue (started_m (self p)) = None \<and> pvalue (finished_m (self p)) = None
           | Published r \<Rightarrow>
               pvalue (started_m (self p)) = Some r \<and> pvalue (finished_m (self p)) = None
           | Polling \<Rightarrow>
               pvalue (started_m (self p)) = Some True \<and> pvalue (finished_m (self p)) = None
           | Finished \<Rightarrow>
               pvalue (started_m (self p)) \<noteq> None \<and> pvalue (finished_m (self p)) \<noteq> None
           | Exited \<Rightarrow>
               pvalue (started_m (self p)) \<noteq> None \<and> pvalue (finished_m (self p)) \<noteq> None
           | Crashed x \<Rightarrow> False)
      | In_stop \<Rightarrow>
          stopped_m (self p) \<and> started_m (self p) = new_promise \<and>
          retrieved (finished_m (self p)) \<and> threads p \<noteq> [] \<and>
          (case last_phase p of
             Published r \<Rightarrow> pvalue (finished_m (self p)) = None
           | Polling \<Rightarrow> pvalue (finished_m (self p)) = None
           | Finished \<Rightarrow> pvalue (finished_m (self p)) \<noteq> None
           | Exited \<Rightarrow> pvalue (finished_m (self p)) \<noteq> None
           | _ \<Rightarrow> False))"

definition owner_frame :: "system \<Rightarrow> frame" where
  "owner_frame s =
     (case mutex_m (self (proc s)) of
        None \<Rightarrow> Idle
      | Some (Caller c) \<Rightarrow> frames s c
      | Some (Work n) \<Rightarrow> Idle)"

definition sound :: "system \<Rightarrow> bool" where
  "sound s =
     ((\<forall>i. Suc i < length (threads (proc s)) \<longrightarrow> published (threads (proc s) ! i)) \<and>
      thread_m (self (proc s)) =
        (if threads (proc s) = [] then None else Some (length (threads (proc s)) - 1)) \<and>
      (\<forall>c. frames s c \<noteq> Idle \<longleftrightarrow> mutex_m (self (proc s)) = Some (Caller c)) \<and>
      (\<forall>n. mutex_m (self (proc s)) \<noteq> Some (Work n)) \<and>
      (\<forall>c f e. (c, f, Inl e) \<notin> set (returns s)) \<and>
      signals_fit (owner_frame s) (proc s))"

section \<open>Auxiliary facts\<close>

lemmas prim_defs = emit_def lock_def unlock_def load_stopped_def store_stopped_def
  make_thread_def set_priority_def promise_of_def promise_update_def set_value_def
  get_future_def get_def reset_def new_promise_def

lemmas call_defs = start_def stop_def start_resume_def stop_resume_def started_def
  started_tail_def finished_def stopped_def

lemma published_simps [simp]:
  "published Finished" "published Exited" "\<not> published Binding" "\<not> published (Published r)"
  "\<not> published Polling" "\<not> published (Crashed e)"
  by (simp_all add: published_def)

subsection \<open>The invariant holds in every reachable state\<close>

lemma sound_init: "sound (init priority)"
  by (simp add: sound_def init_def boot_def construct_def signals_fit_def owner_frame_def last_phase_def new_promise_def)

lemma start_eq:
  "start t p =
     (if mutex_m (self p) \<noteq> None then Blocked
      else if \<not> stopped_m (self p) then
        Returned False (p\<lparr>self := (self p)\<lparr>mutex_m := None\<rparr>,
                          trace := trace p @ [Lock t, Load_stopped t (Some t), Unlock t]\<rparr>)
      else if retrieved (started_m (self p)) then
        Threw future_already_retrieved
          (p\<lparr>self := (self p)\<lparr>mutex_m := None, stopped_m := False,
                               thread_m := Some (length (threads p))\<rparr>,
             threads := threads p @ [Binding],
             trace := trace p @ [Lock t, Load_stopped t (Some t), Store_stopped t False (Some t),
                                 Spawn t (length (threads p)), Unlock t]\<rparr>)
      else
        Waiting
          (p\<lparr>self := (self p)\<lparr>mutex_m := Some t, stopped_m := False,
                               thread_m := Some (length (threads p)),
                               started_m := (started_m (self p))\<lparr>retrieved := True\<rparr>\<rparr>,
             threads := threads p @ [Binding],
             trace := trace p @ [Lock t, Load_stopped t (Some t), Store_stopped t False (Some t),
                                 Spawn t (length (threads p)), Get_future t Start_signal]\<rparr>))"
  by (simp add: start_def prim_defs Let_def)

lemma stop_eq:
  "stop t p =
     (if mutex_m (self p) \<noteq> None then Blocked
      else if stopped_m (self p) then
        Returned True (p\<lparr>self := (self p)\<lparr>mutex_m := None\<rparr>,
                         trace := trace p @ [Lock t, Load_stopped t (Some t), Unlock t]\<rparr>)
      else if retrieved (finished_m (self p)) then
        Threw future_already_retrieved
          (p\<lparr>self := (self p)\<lparr>mutex_m := None, stopped_m := True\<rparr>,
             trace := trace p @ [Lock t, Load_stopped t (Some t), Store_stopped t True (Some t),
                                 Unlock t]\<rparr>)
      else
        Waiting
          (p\<lparr>self := (self p)\<lparr>mutex_m := Some t, stopped_m := True,
                               finished_m := (finished_m (self p))\<lparr>retrieved := True\<rparr>\<rparr>,
             trace := trace p @ [Lock t, Load_stopped t (Some t), Store_stopped t True (Some t),
                                 Get_future t Finish_signal]\<rparr>))"
  by (simp add: stop_def prim_defs Let_def)

lemma start_resume_eq:
  "start_resume t p =
     (case pvalue (started_m (self p)) of
        None \<Rightarrow> Blocked
      | Some r \<Rightarrow>
          Returned r (p\<lparr>self := (self p)\<lparr>started_m := new_promise, mutex_m := None\<rparr>,
                        trace := trace p @ [Get t Start_signal r, Reset t Start_signal, Unlock t]\<rparr>))"
  by (simp add: start_resume_def prim_defs split: option.splits)

lemma stop_resume_eq:
  "stop_resume t p =
     (case pvalue (finished_m (self p)) of
        None \<Rightarrow> Blocked
      | Some r \<Rightarrow>
          Returned r (p\<lparr>self := (self p)\<lparr>finished_m := new_promise, mutex_m := None\<rparr>,
                        trace := trace p @ [Get t Finish_signal r, Reset t Finish_signal, Unlock t]\<rparr>))"
  by (simp add: stop_resume_def prim_defs split: option.splits)


lemma sound_call_start:
  assumes "sound s"
  shows "sound (step (Call_start c) s)"
proof (cases "mutex_m (self (proc s))")
  case (Some t)
  then show ?thesis using assms by (simp add: start_eq settle_def)
next
  case None
  from assms None have idle: "\<And>c. frames s c = Idle" by (simp add: sound_def)
  from assms None have fit: "signals_fit Idle (proc s)" by (simp add: sound_def owner_frame_def)
  show ?thesis
  proof (cases "stopped_m (self (proc s))")
    case False
    with None fit assms idle show ?thesis
      by (auto simp: start_eq settle_def sound_def owner_frame_def signals_fit_def last_phase_def
            split: phase.splits)
  next
    case True
    with fit have sig: "started_m (self (proc s)) = new_promise"
      "pvalue (finished_m (self (proc s))) = None" "\<not> retrieved (finished_m (self (proc s)))"
      and lp: "published (last_phase (proc s))"
      by (simp_all add: signals_fit_def)
    have all: "\<And>i. i < length (threads (proc s)) \<Longrightarrow> published (threads (proc s) ! i)"
    proof -
      fix i assume i: "i < length (threads (proc s))"
      show "published (threads (proc s) ! i)"
      proof (cases "Suc i < length (threads (proc s))")
        case True then show ?thesis using assms by (simp add: sound_def)
      next
        case False
        with i have "i = length (threads (proc s)) - 1" by simp
        with i lp show ?thesis by (auto simp: last_phase_def last_conv_nth split: if_splits)
      qed
    qed
    from None True sig idle assms all show ?thesis
      by (simp add: start_eq settle_def sound_def owner_frame_def signals_fit_def last_phase_def
            new_promise_def nth_append published_def)
  qed
qed


lemma sound_call_stop:
  assumes "sound s"
  shows "sound (step (Call_stop c) s)"
proof (cases "mutex_m (self (proc s))")
  case (Some t)
  then show ?thesis using assms by (simp add: stop_eq settle_def)
next
  case None
  from assms None have idle: "\<And>c. frames s c = Idle" by (simp add: sound_def)
  from assms None have fit: "signals_fit Idle (proc s)" by (simp add: sound_def owner_frame_def)
  show ?thesis
  proof (cases "stopped_m (self (proc s))")
    case True
    with None fit assms idle show ?thesis
      by (auto simp: stop_eq settle_def sound_def owner_frame_def signals_fit_def last_phase_def)
  next
    case False
    with None fit assms idle show ?thesis
      by (auto simp: stop_eq settle_def sound_def owner_frame_def signals_fit_def last_phase_def
            new_promise_def split: phase.splits)
  qed
qed

lemma sound_resume:
  assumes "sound s"
  shows "sound (step (Resume c) s)"
proof (cases "frames s c")
  case Idle
  then show ?thesis using assms by simp
next
  case In_start
  then have "frames s c \<noteq> Idle" by simp
  with assms have own: "mutex_m (self (proc s)) = Some (Caller c)"
    unfolding sound_def by blast
  with assms In_start have fit: "signals_fit In_start (proc s)"
    by (simp add: sound_def owner_frame_def)
  from assms own have others: "\<And>d. d \<noteq> c \<Longrightarrow> frames s d = Idle"
    unfolding sound_def by auto
  from In_start own fit assms others show ?thesis
    by (auto simp: start_resume_eq settle_def sound_def owner_frame_def signals_fit_def
          last_phase_def new_promise_def split: phase.splits option.splits)
next
  case In_stop
  then have "frames s c \<noteq> Idle" by simp
  with assms have own: "mutex_m (self (proc s)) = Some (Caller c)"
    unfolding sound_def by blast
  with assms In_stop have fit: "signals_fit In_stop (proc s)"
    by (simp add: sound_def owner_frame_def)
  from assms own have others: "\<And>d. d \<noteq> c \<Longrightarrow> frames s d = Idle"
    unfolding sound_def by auto
  from In_stop own fit assms others show ?thesis
    by (auto simp: stop_resume_eq settle_def sound_def owner_frame_def signals_fit_def
          last_phase_def new_promise_def split: phase.splits option.splits)
qed


lemma work_idle:
  "\<not> n < length (threads p) \<or> published (threads p ! n) \<or> (\<exists>e. threads p ! n = Crashed e)
   \<Longrightarrow> work n b p = p"
  by (auto simp: work_def published_def)

lemma owner_frame_work [simp]:
  "owner_frame (s\<lparr>proc := work n b (proc s)\<rparr>) = owner_frame s"
  by (auto simp: owner_frame_def work_def enter_def call_defs prim_defs
        split: phase.splits sum.splits option.splits thread_id.splits)

lemma sound_run:
  assumes "sound s"
  shows "sound (step (Run n b) s)"
proof (cases "\<not> n < length (threads (proc s)) \<or> published (threads (proc s) ! n) \<or>
    (\<exists>e. threads (proc s) ! n = Crashed e)")
  case True
  then have "work n b (proc s) = proc s" by (rule work_idle)
  then show ?thesis using assms by simp
next
  case False
  then have n: "n < length (threads (proc s))" and nf: "\<not> published (threads (proc s) ! n)"
    and nc: "\<And>e. threads (proc s) ! n \<noteq> Crashed e"
    by auto
  from assms nf have "\<not> Suc n < length (threads (proc s))"
    by (auto simp: sound_def)
  with n have top: "length (threads (proc s)) = Suc n" by simp
  then have ne: "threads (proc s) \<noteq> []" by auto
  from top ne have lp: "last_phase (proc s) = threads (proc s) ! n"
    by (auto simp: last_phase_def last_conv_nth)
  from assms have fit: "signals_fit (owner_frame s) (proc s)" by (simp add: sound_def)
  have rest: "\<And>i. Suc i < length (threads (proc s)) \<Longrightarrow> published (threads (proc s) ! i)"
    using assms by (simp add: sound_def)
  show ?thesis
  proof (cases "threads (proc s) ! n")
    case Binding
    with fit lp have "owner_frame s = In_start"
      by (cases "owner_frame s") (auto simp: signals_fit_def split: if_splits)
    with fit lp Binding have v: "pvalue (started_m (self (proc s))) = None"
      by (simp add: signals_fit_def)
    from Binding n v have w: "work n b (proc s) =
      (proc s)\<lparr>self := (self (proc s))\<lparr>started_m := (started_m (self (proc s)))\<lparr>pvalue := Some b\<rparr>\<rparr>,
        trace := trace (proc s) @ [Set_value (Work n) Start_signal b],
        threads := (threads (proc s))[n := Published b]\<rparr>"
      by (simp add: work_def enter_def prim_defs)
    from assms \<open>owner_frame s = In_start\<close> v n top rest fit lp Binding show ?thesis
      by (auto simp: w sound_def owner_frame_def signals_fit_def last_phase_def last_list_update
            nth_list_update split: option.splits thread_id.splits)
  next
    case (Published r)
    with fit lp have v: "pvalue (finished_m (self (proc s))) = None"
      by (cases "owner_frame s") (auto simp: signals_fit_def split: if_splits)
    from Published n v have w: "work n b (proc s) =
      (if r then
         (proc s)\<lparr>trace := trace (proc s) @ [Set_priority (Work n) (priority_m (self (proc s)))],
           threads := (threads (proc s))[n := Polling]\<rparr>
       else
         (proc s)\<lparr>self := (self (proc s))\<lparr>finished_m := (finished_m (self (proc s)))\<lparr>pvalue := Some True\<rparr>\<rparr>,
           trace := trace (proc s) @ [Set_value (Work n) Finish_signal True],
           threads := (threads (proc s))[n := Finished]\<rparr>)"
      by (simp add: work_def enter_def call_defs prim_defs)
    from assms v n top rest fit lp Published show ?thesis
      by (cases "owner_frame s")
         (auto simp: w sound_def owner_frame_def signals_fit_def last_phase_def last_list_update
            nth_list_update published_def split: option.splits thread_id.splits if_splits)
  next
    case Polling
    with fit lp have v: "pvalue (finished_m (self (proc s))) = None"
      by (cases "owner_frame s") (auto simp: signals_fit_def split: if_splits)
    from Polling n v have w: "work n b (proc s) =
      (if stopped_m (self (proc s)) then
         (proc s)\<lparr>self := (self (proc s))\<lparr>finished_m := (finished_m (self (proc s)))\<lparr>pvalue := Some b\<rparr>\<rparr>,
           trace := trace (proc s) @ [Load_stopped (Work n) (mutex_m (self (proc s))),
                                      Set_value (Work n) Finish_signal b],
           threads := (threads (proc s))[n := Finished]\<rparr>
       else
         (proc s)\<lparr>trace := trace (proc s) @ [Load_stopped (Work n) (mutex_m (self (proc s)))]\<rparr>)"
      by (simp add: work_def enter_def call_defs prim_defs)
    from assms v n top rest fit lp Polling show ?thesis
      by (cases "owner_frame s")
         (auto simp: w sound_def owner_frame_def signals_fit_def last_phase_def last_list_update
            nth_list_update published_def split: option.splits thread_id.splits if_splits)
  next
    case Finished
    with nf show ?thesis by (simp add: published_def)
  next
    case Exited
    with nf show ?thesis by (simp add: published_def)
  next
    case (Crashed e)
    with nc [of e] show ?thesis by simp
  qed
qed


lemma sound_leave:
  assumes "sound s"
  shows "sound (step (Leave n b) s)"
proof (cases "n < length (threads (proc s)) \<and> threads (proc s) ! n = Polling")
  case False
  then have "leave n b (proc s) = proc s" by (auto simp: leave_def)
  then show ?thesis using assms by simp
next
  case True
  then have n: "n < length (threads (proc s))" and ph: "threads (proc s) ! n = Polling"
    by auto
  from assms ph have "\<not> Suc n < length (threads (proc s))"
    by (auto simp: sound_def published_def)
  with n have top: "length (threads (proc s)) = Suc n" by simp
  then have ne: "threads (proc s) \<noteq> []" by auto
  from top ne have lp: "last_phase (proc s) = threads (proc s) ! n"
    by (auto simp: last_phase_def last_conv_nth)
  from assms have fit: "signals_fit (owner_frame s) (proc s)" by (simp add: sound_def)
  have rest: "\<And>i. Suc i < length (threads (proc s)) \<Longrightarrow> published (threads (proc s) ! i)"
    using assms by (simp add: sound_def)
  from ph fit lp have v: "pvalue (finished_m (self (proc s))) = None"
    by (cases "owner_frame s") (auto simp: signals_fit_def split: if_splits)
  from ph n v have w: "leave n b (proc s) =
      (proc s)\<lparr>self := (self (proc s))\<lparr>finished_m := (finished_m (self (proc s)))\<lparr>pvalue := Some b\<rparr>\<rparr>,
        trace := trace (proc s) @ [Set_value (Work n) Finish_signal b],
        threads := (threads (proc s))[n := Finished]\<rparr>"
    by (simp add: leave_def enter_def call_defs prim_defs)
  from assms v n top rest fit lp ph show ?thesis
    by (cases "owner_frame s")
       (auto simp: w sound_def owner_frame_def signals_fit_def last_phase_def last_list_update
          nth_list_update published_def split: option.splits thread_id.splits if_splits)
qed

lemma sound_return:
  assumes "sound s"
  shows "sound (step (Return n) s)"
proof (cases "n < length (threads (proc s)) \<and> threads (proc s) ! n = Finished")
  case False
  then have "exit_work n (proc s) = proc s" by (auto simp: exit_work_def)
  then show ?thesis using assms by simp
next
  case True
  then have n: "n < length (threads (proc s))" and ph: "threads (proc s) ! n = Finished"
    by auto
  then have ne: "threads (proc s) \<noteq> []" by auto
  from n ph have w: "exit_work n (proc s) = (proc s)\<lparr>threads := (threads (proc s))[n := Exited]\<rparr>"
    by (simp add: exit_work_def enter_def)
  have lp: "last_phase ((proc s)\<lparr>threads := (threads (proc s))[n := Exited]\<rparr>) =
      (if length (threads (proc s)) = Suc n then Exited else last_phase (proc s))"
    using ne by (auto simp: last_phase_def last_list_update)
  have was: "length (threads (proc s)) = Suc n \<Longrightarrow> last_phase (proc s) = Finished"
    using ph ne by (auto simp: last_phase_def last_conv_nth)
  from assms have fit: "signals_fit (owner_frame s) (proc s)" by (simp add: sound_def)
  have fit': "signals_fit f ((proc s)\<lparr>threads := (threads (proc s))[n := Exited]\<rparr>)"
    if "signals_fit f (proc s)" for f
    using that was ne
    by (cases f; cases "length (threads (proc s)) = Suc n")
       (auto simp: signals_fit_def lp split: if_splits phase.splits)
  have own: "owner_frame (s\<lparr>proc := (proc s)\<lparr>threads := (threads (proc s))[n := Exited]\<rparr>\<rparr>)
      = owner_frame s"
    by (simp add: owner_frame_def split: option.splits thread_id.splits)
  from assms n show ?thesis
    by (simp add: w sound_def own fit' [OF fit] nth_list_update published_def)
qed

lemma sound_step: "sound s \<Longrightarrow> sound (step m s)"
  by (cases m)
     (simp_all only: sound_call_start sound_call_stop sound_resume sound_run sound_leave
        sound_return)

lemma sound_fold: "sound s \<Longrightarrow> sound (fold step ms s)"
  by (induction ms arbitrary: s) (simp_all add: sound_step)

lemma sound_reachable: "sound (run ms (init priority))"
  by (simp add: run_def sound_fold sound_init)

lemma one_unpublished:
  assumes "\<forall>i. Suc i < length xs \<longrightarrow> published (xs ! i)"
  shows "length (filter (\<lambda>ph. \<not> published ph) xs) \<le> 1"
proof (cases xs rule: rev_cases)
  case Nil
  then show ?thesis by simp
next
  case (snoc ys y)
  have "\<forall>ph \<in> set ys. published ph"
  proof
    fix ph assume "ph \<in> set ys"
    then obtain i where "i < length ys" "ys ! i = ph" by (auto simp: in_set_conv_nth)
    with assms snoc show "published ph" by (auto simp: nth_append)
  qed
  then have "filter (\<lambda>ph. \<not> published ph) ys = []" by (simp add: filter_empty_conv)
  with snoc show ?thesis by simp
qed

lemma disciplined_step:
  assumes "sound s" "list_all disciplined (trace (proc s))"
  shows "list_all disciplined (trace (proc (step m s)))"
proof (cases m)
  case (Call_start c)
  with assms(2) show ?thesis
    by (auto simp: start_eq settle_def disciplined_def)
next
  case (Call_stop c)
  with assms(2) show ?thesis
    by (auto simp: stop_eq settle_def disciplined_def)
next
  case (Resume c)
  with assms(2) show ?thesis
    by (auto simp: start_resume_eq stop_resume_eq settle_def disciplined_def
          split: frame.splits option.splits)
next
  case (Run n b)
  from assms(1) have "mutex_m (self (proc s)) \<noteq> Some (Work n)" by (simp add: sound_def)
  with Run assms(2) show ?thesis
    by (auto simp: work_def enter_def call_defs prim_defs disciplined_def
          split: phase.splits)
next
  case (Leave n b)
  with assms(2) show ?thesis
    by (auto simp: leave_def enter_def call_defs prim_defs disciplined_def)
next
  case (Return n)
  with assms(2) show ?thesis
    by (auto simp: exit_work_def enter_def)
qed

lemma disciplined_fold:
  "sound s \<Longrightarrow> list_all disciplined (trace (proc s))
   \<Longrightarrow> list_all disciplined (trace (proc (fold step ms s)))"
  by (induction ms arbitrary: s) (simp_all add: sound_step disciplined_step del: step.simps)

subsection \<open>Consequences of the invariant\<close>

lemma no_crash:
  assumes "sound s"
  shows "Crashed e \<notin> set (threads (proc s))"
proof
  assume "Crashed e \<in> set (threads (proc s))"
  then obtain i where i: "i < length (threads (proc s))" "threads (proc s) ! i = Crashed e"
    by (auto simp: in_set_conv_nth)
  with assms have "\<not> Suc i < length (threads (proc s))" by (auto simp: sound_def published_def)
  with i have "length (threads (proc s)) = Suc i" by simp
  with i have "last_phase (proc s) = Crashed e"
    by (auto simp: last_phase_def last_conv_nth)
  moreover from assms have "signals_fit (owner_frame s) (proc s)" by (simp add: sound_def)
  ultimately show False
    by (cases "owner_frame s") (auto simp: signals_fit_def split: if_splits)
qed

lemma fresh_when_free:
  assumes "sound s" "mutex_m (self (proc s)) = None"
  shows "started_m (self (proc s)) = new_promise"
    and "stopped_m (self (proc s)) \<Longrightarrow> finished_m (self (proc s)) = new_promise"
  using assms
  by (auto simp: sound_def owner_frame_def signals_fit_def new_promise_def)

subsection \<open>Whole cycles\<close>

lemma one_cycle:
  assumes "quiescent (proc s)" "frames s c = Idle"
  shows "fold step (cycle c (length (threads (proc s))) r b) s
     = s\<lparr>proc := (proc s)
            \<lparr>threads := threads (proc s) @ [Finished],
             self := (self (proc s))
               \<lparr>thread_m := Some (length (threads (proc s))),
                started_m := \<lparr>pvalue = None, retrieved = False\<rparr>,
                stopped_m := True,
                finished_m := \<lparr>pvalue = None, retrieved = False\<rparr>,
                mutex_m := None\<rparr>,
            trace := trace (proc s) @
              [Lock (Caller c), Load_stopped (Caller c) (Some (Caller c)),
               Store_stopped (Caller c) False (Some (Caller c)),
               Spawn (Caller c) (length (threads (proc s))), Get_future (Caller c) Start_signal,
               Set_value (Work (length (threads (proc s)))) Start_signal r,
               Get (Caller c) Start_signal r, Reset (Caller c) Start_signal, Unlock (Caller c)] @
              (if r then [Set_priority (Work (length (threads (proc s)))) (priority_m (self (proc s)))]
               else [Set_value (Work (length (threads (proc s)))) Finish_signal True]) @
              [Lock (Caller c), Load_stopped (Caller c) (Some (Caller c)),
               Store_stopped (Caller c) True (Some (Caller c)), Get_future (Caller c) Finish_signal] @
              (if r then [Load_stopped (Work (length (threads (proc s)))) (Some (Caller c)),
                          Set_value (Work (length (threads (proc s)))) Finish_signal b]
               else []) @
              [Get (Caller c) Finish_signal (if r then b else True), Reset (Caller c) Finish_signal,
               Unlock (Caller c)]\<rparr>,
          frames := (frames s)(c := Idle),
          returns := returns s @ [(c, In_start, Inr r), (c, In_stop, Inr (if r then b else True))]\<rparr>"
  using assms
  by (cases r)
     (simp_all add: cycle_def quiescent_def start_eq stop_eq start_resume_eq stop_resume_eq settle_def
        work_def enter_def call_defs prim_defs)

lemma cycles_run:
  "quiescent (proc s) \<Longrightarrow> frames s c = Idle \<Longrightarrow>
   quiescent (proc (fold step (cycles c (length (threads (proc s))) rbs) s)) \<and>
   frames (fold step (cycles c (length (threads (proc s))) rbs) s) c = Idle \<and>
   returns (fold step (cycles c (length (threads (proc s))) rbs) s) = returns s @ reports c rbs \<and>
   length (threads (proc (fold step (cycles c (length (threads (proc s))) rbs) s)))
     = length (threads (proc s)) + length rbs \<and>
   applied (trace (proc (fold step (cycles c (length (threads (proc s))) rbs) s)))
     = applied (trace (proc s)) + length (filter fst rbs) \<and>
   (\<forall>sig. consumed sig (trace (proc (fold step (cycles c (length (threads (proc s))) rbs) s)))
     = consumed sig (trace (proc s)) + length rbs \<and>
    renewed sig (trace (proc (fold step (cycles c (length (threads (proc s))) rbs) s)))
     = renewed sig (trace (proc s)) + length rbs)"
proof (induction rbs arbitrary: s)
  case Nil
  then show ?case by simp
next
  case (Cons rb rbs)
  obtain r b where rb: "rb = (r, b)" by (cases rb)
  let ?n = "length (threads (proc s))"
  let ?s = "fold step (cycle c ?n r b) s"
  note st = one_cycle [OF Cons.prems, of r b]
  have q: "quiescent (proc ?s)" and f: "frames ?s c = Idle"
    and len: "length (threads (proc ?s)) = Suc ?n"
    and ret: "returns ?s = returns s @ [(c, In_start, Inr r), (c, In_stop, Inr (if r then b else True))]"
    and app: "applied (trace (proc ?s)) = applied (trace (proc s)) + (if r then 1 else 0)"
    using Cons.prems
    by (simp_all add: st quiescent_def new_promise_def applied_def)
  have cons: "consumed sig (trace (proc ?s)) = Suc (consumed sig (trace (proc s)))"
    and ren: "renewed sig (trace (proc ?s)) = Suc (renewed sig (trace (proc s)))" for sig
    by (cases sig; simp add: st consumed_def renewed_def)+
  have unfold: "fold step (cycles c ?n (rb # rbs)) s = fold step (cycles c (length (threads (proc ?s))) rbs) ?s"
    by (simp only: rb len cycles.simps fold_append o_apply)
  from Cons.IH [OF q f] show ?case
    unfolding unfold by (simp add: ret cons ren len rb app)
qed

lemma quiescent_boot: "quiescent (boot priority)"
  by (simp add: quiescent_def boot_def construct_def)

lemma quiescent_init: "quiescent (proc (init priority))"
  by (simp add: init_def quiescent_boot)

subsection \<open>Single calls on a quiescent or running worker\<close>

lemma reachable_free:
  assumes "p = proc (run ms (init priority))" "mutex_m (self p) = None"
  shows "stopped_m (self p) \<Longrightarrow> quiescent p"
    and "\<not> retrieved (finished_m (self p))"
proof -
  have s: "sound (run ms (init priority))" by (rule sound_reachable)
  from fresh_when_free [OF s] assms show "stopped_m (self p) \<Longrightarrow> quiescent p"
    by (simp add: quiescent_def)
  from s assms show "\<not> retrieved (finished_m (self p))"
    by (simp add: sound_def owner_frame_def signals_fit_def)
qed

lemma failed_start_chain:
  assumes "quiescent p"
  shows "\<exists>p0 p1 p2 p3 p4.
       start c p = Waiting p0 \<and>
       stop d p0 = Blocked \<and>
       started w False p0 = Inr (False, p1) \<and>
       pvalue (finished_m (self p1)) = Some True \<and>
       stop d p1 = Blocked \<and>
       start_resume c p1 = Returned False p2 \<and>
       stop d p2 = Waiting p3 \<and>
       stop_resume d p3 = Returned True p4 \<and> quiescent p4"
    and "\<exists>p0 p1 p2 p3 p4 p5.
       start c p = Waiting p0 \<and>
       set_value w Start_signal False p0 = Inr p1 \<and>
       start_resume c p1 = Returned False p2 \<and>
       stop d p2 = Waiting p3 \<and>
       stop_resume d p3 = Blocked \<and>
       started_tail w False p3 = Inr (False, p4) \<and>
       stop_resume d p4 = Returned True p5 \<and> quiescent p5"
  using assms by (simp_all add: quiescent_def call_defs prim_defs)

lemma start_returns_published:
  assumes "quiescent p"
  shows "\<exists>p1. start c p = Waiting p1 \<and> \<not> stopped_m (self p1) \<and>
         threads p1 = threads p @ [Binding] \<and> thread_m (self p1) = Some (length (threads p)) \<and>
         start_resume c p1 = Blocked \<and>
         (\<exists>p2 p3. started w result p1 = Inr (result, p2) \<and>
            start_resume c p2 = Returned result p3 \<and>
            \<not> stopped_m (self p3) \<and> mutex_m (self p3) = None \<and>
            started_m (self p3) = new_promise \<and> threads p3 = threads p1)"
  using assms by (simp add: quiescent_def call_defs prim_defs)

lemma stop_returns_published:
  assumes "mutex_m (self p) = None" "\<not> stopped_m (self p)" "\<not> retrieved (finished_m (self p))"
  shows "\<exists>q1. stop c p = Waiting q1 \<and> stopped_m (self q1) \<and> threads q1 = threads p \<and>
         (case pvalue (finished_m (self p)) of
            None \<Rightarrow>
              stop_resume c q1 = Blocked \<and>
              (\<exists>q2 q3. finished w result q1 = Inr (result, q2) \<and>
                 stop_resume c q2 = Returned result q3 \<and>
                 stopped_m (self q3) \<and> mutex_m (self q3) = None \<and>
                 finished_m (self q3) = new_promise \<and> threads q3 = threads p)
          | Some v \<Rightarrow>
              (\<exists>q3. stop_resume c q1 = Returned v q3 \<and>
                 stopped_m (self q3) \<and> mutex_m (self q3) = None \<and>
                 finished_m (self q3) = new_promise \<and> threads q3 = threads p))"
  using assms by (simp add: call_defs prim_defs split: option.splits)

subsection \<open>Evaluating concrete schedules\<close>

lemmas eval_defs = run_def cycle_def init_def boot_def construct_def settle_def work_def leave_def
  exit_work_def enter_def start_eq stop_eq start_resume_eq stop_resume_eq started_def started_tail_def finished_def
  stopped_def prim_defs

section \<open>Properties of forward\<close>

text \<open>
  C1. For every pair of sockets (also when both are the same socket) and every behaviour
  of the transport, \<open>forward\<close> first invokes the receive on the source. When that
  fails, \<open>forward\<close> returns false in the state the receive left, and the receive is the
  only socket operation invoked: no send takes place. When it succeeds, \<open>forward\<close>
  invokes the send of the received packet on the destination, in the state the receive
  left; it returns in the state that send left, and returns true exactly when the send
  succeeded. So \<open>forward\<close> returns true if and only if both operations succeed.
\<close>

theorem forward_both_or_nothing:
  fixes rcv :: "'w receiver" and sen :: "'w sender"
  shows "case socket_receive rcv from_s [] tr of
           (rc, packet, tr1) \<Rightarrow>
             calls tr1 = calls tr @ [Receive from_s] \<and>
             (is_error rc \<longrightarrow> forward rcv sen from_s to_s tr = (False, tr1)) \<and>
             (\<not> is_error rc \<longrightarrow>
                (case socket_send sen to_s packet tr1 of
                   (sc, tr2) \<Rightarrow>
                     forward rcv sen from_s to_s tr = (\<not> is_error sc, tr2) \<and>
                     calls tr2 = calls tr @ [Receive from_s, Send to_s packet])) \<and>
             (fst (forward rcv sen from_s to_s tr) \<longleftrightarrow>
                \<not> is_error rc \<and> \<not> is_error (fst (socket_send sen to_s packet tr1)))"
  by (auto simp: forward_def socket_receive_def socket_send_def split: prod.splits)

theorem forward_both_or_nothing_witness:
  "forward (\<lambda>s m w. (if s = 0 then 0 else 7, [''ping''], w + 1))
           (\<lambda>s m w. (if s = 1 then 0 else 5, w + 10)) 0 1 \<lparr>world = (0::nat), calls = []\<rparr>
     = (True, \<lparr>world = 11, calls = [Receive 0, Send 1 [''ping'']]\<rparr>) \<and>
   forward (\<lambda>s m w. (if s = 0 then 0 else 7, [''ping''], w + 1))
           (\<lambda>s m w. (if s = 1 then 0 else 5, w + 10)) 0 2 \<lparr>world = (0::nat), calls = []\<rparr>
     = (False, \<lparr>world = 11, calls = [Receive 0, Send 2 [''ping'']]\<rparr>) \<and>
   forward (\<lambda>s m w. (if s = 0 then 0 else 7, [''ping''], w + 1))
           (\<lambda>s m w. (if s = 1 then 0 else 5, w + 10)) 3 1 \<lparr>world = (0::nat), calls = []\<rparr>
     = (False, \<lparr>world = 1, calls = [Receive 3]\<rparr>)"
  using
    forward_both_or_nothing
      [where rcv = "\<lambda>s m w. (if s = 0 then 0 else 7, [''ping''], w + 1)"
         and sen = "\<lambda>s m w. (if s = 1 then 0 else 5, w + 10)"
         and from_s = 0 and to_s = 1 and tr = "\<lparr>world = (0::nat), calls = []\<rparr>"]
    forward_both_or_nothing
      [where rcv = "\<lambda>s m w. (if s = 0 then 0 else 7, [''ping''], w + 1)"
         and sen = "\<lambda>s m w. (if s = 1 then 0 else 5, w + 10)"
         and from_s = 0 and to_s = 2 and tr = "\<lparr>world = (0::nat), calls = []\<rparr>"]
    forward_both_or_nothing
      [where rcv = "\<lambda>s m w. (if s = 0 then 0 else 7, [''ping''], w + 1)"
         and sen = "\<lambda>s m w. (if s = 1 then 0 else 5, w + 10)"
         and from_s = 3 and to_s = 1 and tr = "\<lparr>world = (0::nat), calls = []\<rparr>"]
  by (simp add: socket_receive_def socket_send_def is_error_def)

section \<open>Properties of the lifecycle\<close>

text \<open>
  C2. \<open>started(false)\<close> is \<open>set_value(false)\<close> on the start signal followed at once, in
  the same call, by \<open>finished(true)\<close>. So in every reachable state with the worker
  stopped and no call in progress, a start that fails goes as follows: a \<open>stop()\<close>
  attempted while \<open>start()\<close> is still in its critical section waits for the mutex; once
  \<open>start()\<close> has returned false, \<open>stop()\<close> finds the finish signal set, returns true
  without blocking and leaves the worker quiescent. The same holds when \<open>stop()\<close> is
  entered between the two statements of \<open>started(false)\<close>: it is blocked on the finish
  signal only until \<open>finished(true)\<close> has run.
\<close>

theorem failed_start_releases_stop:
  "started w False q =
      (case set_value w Start_signal False q of
         Inl e \<Rightarrow> Inl e
       | Inr q1 \<Rightarrow>
           (case finished w True q1 of Inl e \<Rightarrow> Inl e | Inr (r, q2) \<Rightarrow> Inr (False, q2))) \<and>
   (p = proc (run ms (init priority)) \<and> mutex_m (self p) = None \<and> stopped_m (self p) \<longrightarrow>
      (\<exists>p0 p1 p2 p3 p4.
         start c p = Waiting p0 \<and>
         stop d p0 = Blocked \<and>
         started w False p0 = Inr (False, p1) \<and>
         pvalue (finished_m (self p1)) = Some True \<and>
         stop d p1 = Blocked \<and>
         start_resume c p1 = Returned False p2 \<and>
         stop d p2 = Waiting p3 \<and>
         stop_resume d p3 = Returned True p4 \<and> quiescent p4) \<and>
      (\<exists>p0 p1 p2 p3 p4 p5.
         start c p = Waiting p0 \<and>
         set_value w Start_signal False p0 = Inr p1 \<and>
         start_resume c p1 = Returned False p2 \<and>
         stop d p2 = Waiting p3 \<and>
         stop_resume d p3 = Blocked \<and>
         started_tail w False p3 = Inr (False, p4) \<and>
         stop_resume d p4 = Returned True p5 \<and> quiescent p5))"
proof -
  have "started w False q =
      (case set_value w Start_signal False q of
         Inl e \<Rightarrow> Inl e
       | Inr q1 \<Rightarrow>
           (case finished w True q1 of Inl e \<Rightarrow> Inl e | Inr (r, q2) \<Rightarrow> Inr (False, q2)))"
    by (simp add: started_def started_tail_def split: sum.splits)
  moreover have "quiescent p"
    if "p = proc (run ms (init priority))" "mutex_m (self p) = None" "stopped_m (self p)"
    using that by (rule reachable_free(1))
  ultimately show ?thesis
    using failed_start_chain [where p = p and c = c and d = d and w = w] by blast
qed

theorem failed_start_releases_stop_witness:
  "mutex_m (self (proc (run (cycle 0 0 True True) (init normal)))) = None \<and>
   stopped_m (self (proc (run (cycle 0 0 True True) (init normal)))) \<and>
   (\<exists>p0 p1 p2 p3 p4.
       start (Caller 0) (proc (run (cycle 0 0 True True) (init normal))) = Waiting p0 \<and>
       stop (Caller 1) p0 = Blocked \<and>
       started (Work 1) False p0 = Inr (False, p1) \<and>
       pvalue (finished_m (self p1)) = Some True \<and>
       stop (Caller 1) p1 = Blocked \<and>
       start_resume (Caller 0) p1 = Returned False p2 \<and>
       stop (Caller 1) p2 = Waiting p3 \<and>
       stop_resume (Caller 1) p3 = Returned True p4 \<and> quiescent p4)"
proof -
  have h: "mutex_m (self (proc (run (cycle 0 0 True True) (init normal)))) = None \<and>
     stopped_m (self (proc (run (cycle 0 0 True True) (init normal))))"
    by (simp add: eval_defs)
  from h failed_start_releases_stop
      [where p = "proc (run (cycle 0 0 True True) (init normal))" and ms = "cycle 0 0 True True"
         and priority = normal and c = "Caller 0" and d = "Caller 1" and w = "Work 1"]
  show ?thesis by blast
qed

text \<open>
  C3. On a worker that is running (\<open>stopped_m\<close> false), \<open>start()\<close> returns false as
  soon as it has the mutex; the worker's members and the set of threads are as before,
  and all it did was lock, read the flag and unlock. While another call holds the mutex
  it waits for it and does nothing.
\<close>

theorem start_while_running:
  "\<not> stopped_m (self p) \<Longrightarrow>
     (mutex_m (self p) = None \<longrightarrow>
        (\<exists>p'. start t p = Returned False p' \<and> self p' = self p \<and> threads p' = threads p \<and>
              trace p' = trace p @ [Lock t, Load_stopped t (Some t), Unlock t])) \<and>
     (mutex_m (self p) \<noteq> None \<longrightarrow> start t p = Blocked)"
  by (auto simp: start_eq)

theorem start_while_running_witness:
  "\<not> stopped_m (self (proc (run [Call_start 0, Run 0 True, Resume 0, Run 0 True] (init normal)))) \<and>
   mutex_m (self (proc (run [Call_start 0, Run 0 True, Resume 0, Run 0 True] (init normal)))) = None \<and>
   (\<exists>p'. start (Caller 1) (proc (run [Call_start 0, Run 0 True, Resume 0, Run 0 True] (init normal)))
            = Returned False p' \<and>
         self p' = self (proc (run [Call_start 0, Run 0 True, Resume 0, Run 0 True] (init normal))) \<and>
         threads p' = [Polling])"
  using start_while_running
    [of "proc (run [Call_start 0, Run 0 True, Resume 0, Run 0 True] (init normal))" "Caller 1"]
  by (simp add: eval_defs)

text \<open>
  C4. In every reachable state with no call in progress: if the worker is stopped,
  \<open>start()\<close> clears \<open>stopped_m\<close>, creates one thread, stores its handle and is blocked
  on the start signal, and after the work loop has called \<open>started(result)\<close> it returns
  exactly \<open>result\<close>, with the start signal fresh again; if the worker is running,
  \<open>stop()\<close> sets \<open>stopped_m\<close> and waits on the finish signal: while that is unset it
  is blocked, and after \<open>finished(result)\<close> it returns exactly \<open>result\<close>; when the
  finish signal was published before \<open>stop()\<close> was called, it returns the published
  value. Either way the finish signal is fresh afterwards.
\<close>

theorem start_stop_return_published:
  "p = proc (run ms (init priority)) \<and> mutex_m (self p) = None \<longrightarrow>
   (stopped_m (self p) \<longrightarrow>
      (\<exists>p1. start c p = Waiting p1 \<and> \<not> stopped_m (self p1) \<and>
         threads p1 = threads p @ [Binding] \<and> thread_m (self p1) = Some (length (threads p)) \<and>
         start_resume c p1 = Blocked \<and>
         (\<exists>p2 p3. started w result p1 = Inr (result, p2) \<and>
            start_resume c p2 = Returned result p3 \<and>
            \<not> stopped_m (self p3) \<and> mutex_m (self p3) = None \<and>
            started_m (self p3) = new_promise \<and> threads p3 = threads p1))) \<and>
   (\<not> stopped_m (self p) \<longrightarrow>
      (\<exists>q1. stop c p = Waiting q1 \<and> stopped_m (self q1) \<and> threads q1 = threads p \<and>
         (case pvalue (finished_m (self p)) of
            None \<Rightarrow>
              stop_resume c q1 = Blocked \<and>
              (\<exists>q2 q3. finished w result q1 = Inr (result, q2) \<and>
                 stop_resume c q2 = Returned result q3 \<and>
                 stopped_m (self q3) \<and> mutex_m (self q3) = None \<and>
                 finished_m (self q3) = new_promise \<and> threads q3 = threads p)
          | Some v \<Rightarrow>
              (\<exists>q3. stop_resume c q1 = Returned v q3 \<and>
                 stopped_m (self q3) \<and> mutex_m (self q3) = None \<and>
                 finished_m (self q3) = new_promise \<and> threads q3 = threads p))))"
proof (intro impI conjI; elim conjE)
  assume p: "p = proc (run ms (init priority))" "mutex_m (self p) = None"
  {
    assume "stopped_m (self p)"
    with p have "quiescent p" by (rule reachable_free(1))
    then show "\<exists>p1. start c p = Waiting p1 \<and> \<not> stopped_m (self p1) \<and>
         threads p1 = threads p @ [Binding] \<and> thread_m (self p1) = Some (length (threads p)) \<and>
         start_resume c p1 = Blocked \<and>
         (\<exists>p2 p3. started w result p1 = Inr (result, p2) \<and>
            start_resume c p2 = Returned result p3 \<and>
            \<not> stopped_m (self p3) \<and> mutex_m (self p3) = None \<and>
            started_m (self p3) = new_promise \<and> threads p3 = threads p1)"
      by (rule start_returns_published)
  }
  {
    assume n: "\<not> stopped_m (self p)"
    from p have "\<not> retrieved (finished_m (self p))" by (rule reachable_free(2))
    with p(2) n show "\<exists>q1. stop c p = Waiting q1 \<and> stopped_m (self q1) \<and> threads q1 = threads p \<and>
         (case pvalue (finished_m (self p)) of
            None \<Rightarrow>
              stop_resume c q1 = Blocked \<and>
              (\<exists>q2 q3. finished w result q1 = Inr (result, q2) \<and>
                 stop_resume c q2 = Returned result q3 \<and>
                 stopped_m (self q3) \<and> mutex_m (self q3) = None \<and>
                 finished_m (self q3) = new_promise \<and> threads q3 = threads p)
          | Some v \<Rightarrow>
              (\<exists>q3. stop_resume c q1 = Returned v q3 \<and>
                 stopped_m (self q3) \<and> mutex_m (self q3) = None \<and>
                 finished_m (self q3) = new_promise \<and> threads q3 = threads p))"
      by (rule stop_returns_published)
  }
qed


theorem start_stop_return_published_witness:
  "mutex_m (self (proc (run [] (init normal)))) = None \<and>
   stopped_m (self (proc (run [] (init normal)))) \<and>
   (\<exists>p1 p2 p3.
      start (Caller 0) (proc (run [] (init normal))) = Waiting p1 \<and>
      start_resume (Caller 0) p1 = Blocked \<and>
      started (Work 0) True p1 = Inr (True, p2) \<and>
      start_resume (Caller 0) p2 = Returned True p3) \<and>
   mutex_m (self (proc (run [Call_start 0, Run 0 True, Resume 0, Run 0 True] (init normal)))) = None \<and>
   \<not> stopped_m (self (proc (run [Call_start 0, Run 0 True, Resume 0, Run 0 True] (init normal)))) \<and>
   (\<exists>q1 q2 q3.
      stop (Caller 0) (proc (run [Call_start 0, Run 0 True, Resume 0, Run 0 True] (init normal)))
        = Waiting q1 \<and>
      stop_resume (Caller 0) q1 = Blocked \<and>
      finished (Work 0) False q1 = Inr (False, q2) \<and>
      stop_resume (Caller 0) q2 = Returned False q3)"
proof -
  let ?p = "proc (run [] (init normal))"
  let ?q = "proc (run [Call_start 0, Run 0 True, Resume 0, Run 0 True] (init normal))"
  have p: "mutex_m (self ?p) = None" "stopped_m (self ?p)"
    by (simp_all add: eval_defs)
  have q: "mutex_m (self ?q) = None" "\<not> stopped_m (self ?q)" "pvalue (finished_m (self ?q)) = None"
    by (simp_all add: eval_defs)
  from p start_stop_return_published
      [where p = ?p and ms = "[]" and priority = normal and c = "Caller 0" and w = "Work 0"
         and result = True]
  have 1: "\<exists>p1 p2 p3.
      start (Caller 0) ?p = Waiting p1 \<and>
      start_resume (Caller 0) p1 = Blocked \<and>
      started (Work 0) True p1 = Inr (True, p2) \<and>
      start_resume (Caller 0) p2 = Returned True p3"
    by blast
  from q start_stop_return_published
      [where p = ?q and ms = "[Call_start 0, Run 0 True, Resume 0, Run 0 True]"
         and priority = normal and c = "Caller 0" and w = "Work 0" and result = False]
  have 2: "\<exists>q1 q2 q3.
      stop (Caller 0) ?q = Waiting q1 \<and>
      stop_resume (Caller 0) q1 = Blocked \<and>
      finished (Work 0) False q1 = Inr (False, q2) \<and>
      stop_resume (Caller 0) q2 = Returned False q3"
    by (simp del: fold_simps) blast
  from p q 1 2 show ?thesis by blast
qed

text \<open>
  C5. A constructed worker is stopped and has no thread. \<open>stop()\<close> on it returns true;
  the worker is as constructed (so the finish signal is untouched), no thread exists, and
  the call only locked, read the flag and unlocked.
\<close>

theorem stop_on_fresh_worker:
  "stopped_m (construct priority) \<and> thread_m (construct priority) = None \<and>
   (\<exists>p'. stop t (boot priority) = Returned True p' \<and> self p' = construct priority \<and>
         threads p' = [] \<and> trace p' = [Lock t, Load_stopped t (Some t), Unlock t])"
  by (simp add: stop_eq boot_def construct_def)

theorem stop_on_fresh_worker_witness:
  "\<exists>p'. stop (Caller 0) (boot normal) = Returned True p' \<and> self p' = construct normal \<and>
        threads p' = []"
  using stop_on_fresh_worker [of normal "Caller 0"] by blast

text \<open>
  C6. In every interleaving and at every moment no promise is set twice and no future is
  retrieved twice (no call throws, no work thread is left by an exception); whenever no
  call is in its critical section the start signal is fresh, and the finish signal too if
  the worker is stopped. Any number of cycles \<open>start(); stop()\<close> in a row, whatever the
  work loop reports in each, return cycle by cycle what that cycle's loop reported, end in
  a quiescent worker, and have consumed and reset each of the two signals exactly once
  per cycle.
\<close>

theorem restart_cycles_independent:
  "(\<forall>c f e. (c, f, Inl e) \<notin> set (returns (run ms (init priority)))) \<and>
   (\<forall>e. Crashed e \<notin> set (threads (proc (run ms (init priority))))) \<and>
   (mutex_m (self (proc (run ms (init priority)))) = None \<longrightarrow>
      started_m (self (proc (run ms (init priority)))) = new_promise \<and>
      (stopped_m (self (proc (run ms (init priority)))) \<longrightarrow>
         finished_m (self (proc (run ms (init priority)))) = new_promise)) \<and>
   returns (run (cycles c 0 rbs) (init priority)) = reports c rbs \<and>
   quiescent (proc (run (cycles c 0 rbs) (init priority))) \<and>
   (\<forall>sig. consumed sig (trace (proc (run (cycles c 0 rbs) (init priority)))) = length rbs \<and>
          renewed sig (trace (proc (run (cycles c 0 rbs) (init priority)))) = length rbs)"
proof -
  have s: "sound (run ms (init priority))" by (rule sound_reachable)
  have a: "\<forall>c f e. (c, f, Inl e) \<notin> set (returns (run ms (init priority)))"
    using s by (simp add: sound_def)
  have b: "\<forall>e. Crashed e \<notin> set (threads (proc (run ms (init priority))))"
    using no_crash [OF s] by blast
  have c: "mutex_m (self (proc (run ms (init priority)))) = None \<longrightarrow>
      started_m (self (proc (run ms (init priority)))) = new_promise \<and>
      (stopped_m (self (proc (run ms (init priority)))) \<longrightarrow>
         finished_m (self (proc (run ms (init priority)))) = new_promise)"
    using fresh_when_free [OF s] by blast
  have i: "frames (init priority) c = Idle" "length (threads (proc (init priority))) = 0"
    "returns (init priority) = []" "trace (proc (init priority)) = []"
    by (simp_all add: init_def boot_def)
  from cycles_run [where s = "init priority" and c = c and rbs = rbs, OF quiescent_init i(1)]
  have d: "returns (run (cycles c 0 rbs) (init priority)) = reports c rbs \<and>
     quiescent (proc (run (cycles c 0 rbs) (init priority))) \<and>
     (\<forall>sig. consumed sig (trace (proc (run (cycles c 0 rbs) (init priority)))) = length rbs \<and>
          renewed sig (trace (proc (run (cycles c 0 rbs) (init priority)))) = length rbs)"
    by (simp add: i run_def consumed_def renewed_def)
  from a b c d show ?thesis by blast
qed

theorem restart_cycles_independent_witness:
  "mutex_m (self (proc (run [Call_start 0, Run 0 True, Resume 0, Run 0 True, Leave 0 False,
                              Call_stop 0, Resume 0] (init normal)))) = None \<and>
   stopped_m (self (proc (run [Call_start 0, Run 0 True, Resume 0, Run 0 True, Leave 0 False,
                               Call_stop 0, Resume 0] (init normal)))) \<and>
   started_m (self (proc (run [Call_start 0, Run 0 True, Resume 0, Run 0 True, Leave 0 False,
                               Call_stop 0, Resume 0] (init normal)))) = new_promise \<and>
   finished_m (self (proc (run [Call_start 0, Run 0 True, Resume 0, Run 0 True, Leave 0 False,
                                Call_stop 0, Resume 0] (init normal)))) = new_promise \<and>
   returns (run (cycles 0 0 [(True, False), (False, False), (True, True)]) (init normal))
     = [(0, In_start, Inr True), (0, In_stop, Inr False),
        (0, In_start, Inr False), (0, In_stop, Inr True),
        (0, In_start, Inr True), (0, In_stop, Inr True)] \<and>
   consumed Start_signal
     (trace (proc (run (cycles 0 0 [(True, False), (False, False), (True, True)]) (init normal)))) = 3 \<and>
   consumed Finish_signal
     (trace (proc (run (cycles 0 0 [(True, False), (False, False), (True, True)]) (init normal)))) = 3"
proof -
  have h: "mutex_m (self (proc (run [Call_start 0, Run 0 True, Resume 0, Run 0 True, Leave 0 False,
                              Call_stop 0, Resume 0] (init normal)))) = None \<and>
     stopped_m (self (proc (run [Call_start 0, Run 0 True, Resume 0, Run 0 True, Leave 0 False,
                               Call_stop 0, Resume 0] (init normal))))"
    by (simp add: eval_defs)
  from h restart_cycles_independent
      [of "[Call_start 0, Run 0 True, Resume 0, Run 0 True, Leave 0 False, Call_stop 0, Resume 0]"
          normal 0 "[(True, False), (False, False), (True, True)]"]
  show ?thesis by simp
qed

text \<open>
  C7. \<open>started(true)\<close> on an unset start signal records the value and then applies the
  priority, once, as its last action before it returns; on a start signal that is
  already set it throws before applying anything. \<open>started(false)\<close> never applies the
  priority. Over any number of cycles the priority is applied once for each cycle whose
  loop reported a successful start.
\<close>

theorem priority_once_after_publishing:
  "(pvalue (started_m (self p)) = None \<longrightarrow>
      (\<exists>p'. started t True p = Inr (True, p') \<and>
            trace p' = trace p @ [Set_value t Start_signal True, Set_priority t (priority_m (self p))])) \<and>
   (pvalue (started_m (self p)) \<noteq> None \<longrightarrow> started t True p = Inl promise_already_satisfied) \<and>
   (\<forall>r q'. started t False q = Inr (r, q') \<longrightarrow>
      trace q' = trace q @ [Set_value t Start_signal False, Set_value t Finish_signal True]) \<and>
   applied (trace (proc (run (cycles c 0 rbs) (init priority)))) = length (filter fst rbs)"
proof -
  have "applied (trace (proc (run (cycles c 0 rbs) (init priority)))) = length (filter fst rbs)"
    using cycles_run [of "init priority" c rbs]
    by (simp add: quiescent_init run_def) (simp add: init_def boot_def applied_def)
  then show ?thesis
    by (auto simp: started_def started_tail_def finished_def prim_defs split: sum.splits if_splits)
qed

theorem priority_once_after_publishing_witness:
  "pvalue (started_m (self (boot low))) = None \<and>
   (\<exists>p'. started (Work 0) True (boot low) = Inr (True, p') \<and>
         trace p' = [Set_value (Work 0) Start_signal True, Set_priority (Work 0) low]) \<and>
   (\<exists>q'. started (Work 0) False (boot low) = Inr (False, q') \<and>
         trace q' = [Set_value (Work 0) Start_signal False, Set_value (Work 0) Finish_signal True]) \<and>
   applied (trace (proc (run (cycles 0 0 [(True, True), (False, True), (True, False)]) (init low)))) = 2"
  using priority_once_after_publishing
    [of "boot low" "Work 0" "boot low" 0 "[(True, True), (False, True), (True, False)]" low]
  by (simp add: boot_def construct_def new_promise_def started_def started_tail_def finished_def
        prim_defs)

text \<open>
  C8, as stated, fails in both halves. After one full cycle \<open>start(); stop()\<close> the
  worker is stopped, no call is in progress, and the thread handle still holds the
  thread of that cycle. And \<open>stop()\<close> returns as soon as that thread has published
  its finish signal, without joining it: when the next \<open>start()\<close> creates its thread,
  the first one has not returned from its function, and two threads are live.
\<close>

theorem live_threads_and_handle_counterexample:
  "stopped_m (self (proc (run (cycle 0 0 True True) (init normal)))) \<and>
   mutex_m (self (proc (run (cycle 0 0 True True) (init normal)))) = None \<and>
   returns (run (cycle 0 0 True True) (init normal))
     = [(0, In_start, Inr True), (0, In_stop, Inr True)] \<and>
   thread_m (self (proc (run (cycle 0 0 True True) (init normal)))) = Some 0 \<and>
   threads (proc (run (cycle 0 0 True True @ [Call_start 0]) (init normal)))
     = [Finished, Binding] \<and>
   live (proc (run (cycle 0 0 True True @ [Call_start 0]) (init normal))) = 2"
  by (simp add: eval_defs live_def running_def)

text \<open>
  C8, amended. In every interleaving and at every moment at most one thread has not yet
  published its finish signal; the thread handle is absent exactly as long as no thread
  has been created, and holds the thread created last otherwise. \<open>stop()\<close> changes
  neither the handle nor the threads, however it ends.
\<close>

theorem one_unpublished_thread_handle_kept:
  "unpublished (proc (run ms (init priority))) \<le> 1 \<and>
   thread_m (self (proc (run ms (init priority)))) =
     (if threads (proc (run ms (init priority))) = [] then None
      else Some (length (threads (proc (run ms (init priority)))) - 1)) \<and>
   (\<forall>r e p'. stop t p = Returned r p' \<or> stop t p = Waiting p' \<or> stop t p = Threw e p' \<or>
             stop_resume t p = Returned r p'
      \<longrightarrow> thread_m (self p') = thread_m (self p) \<and> threads p' = threads p)"
proof -
  have s: "sound (run ms (init priority))" by (rule sound_reachable)
  then have "\<forall>i. Suc i < length (threads (proc (run ms (init priority))))
      \<longrightarrow> published (threads (proc (run ms (init priority))) ! i)"
    by (simp add: sound_def)
  then have a: "unpublished (proc (run ms (init priority))) \<le> 1"
    unfolding unpublished_def by (rule one_unpublished)
  have b: "thread_m (self (proc (run ms (init priority)))) =
     (if threads (proc (run ms (init priority))) = [] then None
      else Some (length (threads (proc (run ms (init priority)))) - 1))"
    using s by (simp add: sound_def)
  have c: "\<forall>r e p'. stop t p = Returned r p' \<or> stop t p = Waiting p' \<or> stop t p = Threw e p' \<or>
             stop_resume t p = Returned r p'
      \<longrightarrow> thread_m (self p') = thread_m (self p) \<and> threads p' = threads p"
    by (auto simp: stop_eq stop_resume_eq split: if_splits option.splits)
  from a b c show ?thesis by blast
qed

theorem one_unpublished_thread_handle_kept_witness:
  "unpublished (proc (run [Call_start 0, Run 0 True, Resume 0, Run 0 True] (init normal))) = 1 \<and>
   unpublished (proc (run (cycle 0 0 True True @ [Call_start 0]) (init normal))) = 1 \<and>
   thread_m (self (proc (run (cycle 0 0 True True @ [Call_start 0]) (init normal)))) = Some 1 \<and>
   thread_m (self (proc (run [Call_start 0, Run 0 True, Resume 0, Run 0 True] (init normal)))) = Some 0 \<and>
   (\<exists>q. stop (Caller 0) (proc (run [Call_start 0, Run 0 True, Resume 0, Run 0 True] (init normal)))
          = Waiting q \<and> thread_m (self q) = Some 0 \<and> threads q = [Polling])"
proof -
  let ?p = "proc (run [Call_start 0, Run 0 True, Resume 0, Run 0 True] (init normal))"
  let ?u = "proc (run (cycle 0 0 True True @ [Call_start 0]) (init normal))"
  have l: "unpublished ?p = 1" "threads ?p = [Polling]" "thread_m (self ?p) = Some 0"
    "unpublished ?u = 1" "thread_m (self ?u) = Some 1"
    by (simp_all add: eval_defs unpublished_def)
  obtain q where q: "stop (Caller 0) ?p = Waiting q"
    by (simp add: eval_defs)
  from one_unpublished_thread_handle_kept
    [of "[Call_start 0, Run 0 True, Resume 0, Run 0 True]" normal "Caller 0" ?p] q
  have "thread_m (self q) = thread_m (self ?p) \<and> threads q = threads ?p" by blast
  with l q show ?thesis by simp
qed

text \<open>
  C9, as stated, fails: in the schedule below the work loop, once started, calls
  \<open>stopped()\<close>, which reads the flag while the thread does not own the mutex (nobody
  does).
\<close>

theorem unguarded_read_counterexample:
  "\<not> list_all guarded
       (trace (proc (run [Call_start 0, Run 0 True, Resume 0, Run 0 True, Run 0 True] (init normal))))"
  by (simp add: eval_defs guarded_def)

text \<open>
  C9, amended. In every interleaving every store to the flag is made by the owner of the
  mutex, and so is every load by a thread calling \<open>start()\<close> or \<open>stop()\<close>; a work
  thread never owns the mutex when it loads the flag. \<open>stopped()\<close> is a plain load: it
  takes no lock.
\<close>

theorem flag_access_discipline:
  "list_all disciplined (trace (proc (run ms (init priority)))) \<and>
   stopped t p = (stopped_m (self p), emit (Load_stopped t (mutex_m (self p))) p)"
proof -
  have "list_all disciplined (trace (proc (init priority)))"
    by (simp add: init_def boot_def)
  with sound_init have "list_all disciplined (trace (proc (fold step ms (init priority))))"
    by (rule disciplined_fold)
  then show ?thesis by (simp add: run_def stopped_def load_stopped_def)
qed

theorem flag_access_discipline_witness:
  "list_all disciplined
     (trace (proc (run [Call_start 0, Run 0 True, Resume 0, Run 0 True, Run 0 True] (init normal)))) \<and>
   Load_stopped (Work 0) None
     \<in> set (trace (proc (run [Call_start 0, Run 0 True, Resume 0, Run 0 True, Run 0 True] (init normal)))) \<and>
   Store_stopped (Caller 0) False (Some (Caller 0))
     \<in> set (trace (proc (run [Call_start 0, Run 0 True, Resume 0, Run 0 True, Run 0 True] (init normal))))"
proof -
  have "Load_stopped (Work 0) None
     \<in> set (trace (proc (run [Call_start 0, Run 0 True, Resume 0, Run 0 True, Run 0 True] (init normal)))) \<and>
   Store_stopped (Caller 0) False (Some (Caller 0))
     \<in> set (trace (proc (run [Call_start 0, Run 0 True, Resume 0, Run 0 True, Run 0 True] (init normal))))"
    by (simp add: eval_defs)
  with flag_access_discipline
    [of "[Call_start 0, Run 0 True, Resume 0, Run 0 True, Run 0 True]" normal]
  show ?thesis by blast
qed

text \<open>
  C10. Whenever \<open>started(result)\<close> or \<open>finished(result)\<close> returns, it returns
  \<open>result\<close>; and each does return when the signals it has to set are still unset.
\<close>

theorem callbacks_return_argument:
  "(\<forall>r p'. started t result p = Inr (r, p') \<longrightarrow> r = result) \<and>
   (\<forall>r q'. finished t result q = Inr (r, q') \<longrightarrow> r = result) \<and>
   (pvalue (started_m (self p)) = None \<and> pvalue (finished_m (self p)) = None \<longrightarrow>
      (\<exists>p'. started t result p = Inr (result, p'))) \<and>
   (pvalue (finished_m (self q)) = None \<longrightarrow> (\<exists>q'. finished t result q = Inr (result, q')))"
  by (auto simp: started_def started_tail_def finished_def prim_defs split: sum.splits if_splits)

theorem callbacks_return_argument_witness:
  "pvalue (started_m (self (boot normal))) = None \<and> pvalue (finished_m (self (boot normal))) = None \<and>
   (\<exists>p'. started (Work 0) False (boot normal) = Inr (False, p')) \<and>
   (\<exists>q'. finished (Work 0) False (boot normal) = Inr (False, q'))"
  using callbacks_return_argument [of "Work 0" False "boot normal" "boot normal"]
  by (simp add: boot_def construct_def new_promise_def)

end
